theory Spec2Isabelle
  imports Complex_Main "HOL-Library.Multiset" "HOL-Library.Log_Nat"
begin

section \<open>The disk scheduling policies of app.py\<close>

text \<open>
  Python integers are unbounded, so cylinder numbers, the head position and the disk size
  are \<^typ>\<open>int\<close>; a Python list of integers is an \<^typ>\<open>int list\<close>. Every policy returns the
  pair \<open>(order, total)\<close>. The variable \<open>total\<close> of the source is written \<open>total_seek\<close> where
  it is bound, since \<open>total\<close> is a constant of HOL.
\<close>

subsection \<open>The total seek distance\<close>

text \<open>
  Every policy ends with
  \<^verbatim>\<open>total = sum(abs(order[i] - order[i - 1]) for i in range(1, len(order)))\<close>.
  The indices of \<open>range(1, len(order))\<close> are all within the list, so no read is out of range.
\<close>

definition seek_total :: "int list \<Rightarrow> int" where
  "seek_total order = (\<Sum>i\<leftarrow>[1..<length order]. \<bar>order ! i - order ! (i - 1)\<bar>)"

subsection \<open>FCFS\<close>

definition fcfs :: "int list \<Rightarrow> int \<Rightarrow> int list \<times> int" where
  "fcfs requests head =
     (let order = [head] @ requests
      in (order, seek_total order))"

subsection \<open>SSTF\<close>

text \<open>
  \<^verbatim>\<open>min(reqs, key=f)\<close> walks the list from the left and keeps the best item so far; an item
  replaces it only when its key is strictly smaller, so among items of equal key the
  leftmost one is returned. On the empty list Python raises ValueError; the only call is
  inside \<^verbatim>\<open>while reqs:\<close>, where the list is not empty, so the function is given for
  non-empty lists only.
\<close>

fun py_min :: "('a \<Rightarrow> int) \<Rightarrow> 'a list \<Rightarrow> 'a" where
  "py_min key (x # xs) = foldl (\<lambda>best y. if key y < key best then y else best) x xs"

text \<open>
  The state of the loop is the triple of the local variables \<open>(reqs, order, current)\<close>.
  One run of the loop body: \<^verbatim>\<open>reqs.remove(nearest)\<close> deletes the leftmost item equal to
  \<open>nearest\<close>, which is \<^const>\<open>remove1\<close>.
\<close>

type_synonym sstf_state = "int list \<times> int list \<times> int"

definition sstf_body :: "sstf_state \<Rightarrow> sstf_state" where
  "sstf_body s =
     (case s of (reqs, order, current) \<Rightarrow>
        (let nearest = py_min (\<lambda>x. \<bar>x - current\<bar>) reqs
         in (remove1 nearest reqs, order @ [nearest], nearest)))"

lemma foldl_min_mem:
  "foldl (\<lambda>best y. if key y < key best then y else best) b xs \<in> set (b # xs)"
  by (induction xs arbitrary: b) auto

lemma py_min_mem: "xs \<noteq> [] \<Longrightarrow> py_min key xs \<in> set xs"
  using foldl_min_mem [of key] by (cases xs) auto

lemma sstf_body_shrinks:
  "fst s \<noteq> [] \<Longrightarrow> length (fst (sstf_body s)) < length (fst s)"
  by (cases s) (simp add: sstf_body_def Let_def length_remove1 py_min_mem)

function sstf_loop :: "sstf_state \<Rightarrow> sstf_state" where
  "sstf_loop s = (if fst s \<noteq> [] then sstf_loop (sstf_body s) else s)"
  by pat_completeness auto
termination
  by (relation "measure (\<lambda>s. length (fst s))") (auto simp: sstf_body_shrinks)

declare sstf_loop.simps [simp del]

definition sstf :: "int list \<Rightarrow> int \<Rightarrow> int list \<times> int" where
  "sstf requests head =
     (case sstf_loop (requests, [head], head) of (reqs, order, current) \<Rightarrow>
        (order, seek_total order))"

subsection \<open>SCAN and C-SCAN\<close>

text \<open>
  \<open>direction\<close> is a Python string; the code tests \<^verbatim>\<open>direction == "right"\<close> and takes the
  other branch for every other value. \<^verbatim>\<open>sorted\<close> on integers is \<^const>\<open>sort\<close>, and
  \<^verbatim>\<open>left[::-1]\<close> is \<^const>\<open>rev\<close>.
\<close>

definition scan :: "int list \<Rightarrow> int \<Rightarrow> int \<Rightarrow> string \<Rightarrow> int list \<times> int" where
  "scan requests head disk_size direction =
     (let left = sort (filter (\<lambda>r. r < head) requests);
          right = sort (filter (\<lambda>r. r \<ge> head) requests);
          order = [head];
          order = (if direction = ''right''
                   then order @ (right @ [disk_size - 1] @ rev left)
                   else order @ (rev left @ [0] @ right))
      in (order, seek_total order))"

definition c_scan :: "int list \<Rightarrow> int \<Rightarrow> int \<Rightarrow> string \<Rightarrow> int list \<times> int" where
  "c_scan requests head disk_size direction =
     (let left = sort (filter (\<lambda>r. r < head) requests);
          right = sort (filter (\<lambda>r. r \<ge> head) requests);
          order = (if direction = ''right''
                   then [head] @ right @ [disk_size - 1, 0] @ left
                   else [head] @ rev left @ [0, disk_size - 1] @ rev right)
      in (order, seek_total order))"

section \<open>The two button handlers\<close>

text \<open>
  The exceptions the handlers can raise. A computation that may raise returns
  \<open>py_error + 'a\<close>, with \<open>Inl\<close> for the exception.
\<close>

datatype py_error = ValueError | KeyError | ZeroDivisionError | OverflowError

fun traverse :: "('a \<Rightarrow> py_error + 'b) \<Rightarrow> 'a list \<Rightarrow> py_error + 'b list" where
  "traverse f [] = Inr []"
| "traverse f (x # xs) =
     (case f x of
        Inl e \<Rightarrow> Inl e
      | Inr y \<Rightarrow> (case traverse f xs of Inl e \<Rightarrow> Inl e | Inr ys \<Rightarrow> Inr (y # ys)))"

subsection \<open>Reading the request text\<close>

text \<open>
  Both handlers start with \<^verbatim>\<open>list(map(int, req_str.split(',')))\<close>. \<^verbatim>\<open>str.split(sep)\<close> cuts
  at every occurrence of the separator and returns at least one piece (the empty text
  gives one empty piece). The built-in \<^verbatim>\<open>int\<close> is not code of the repository: it is the
  parameter \<open>py_int\<close>, with \<open>None\<close> where \<^verbatim>\<open>int\<close> raises ValueError.
\<close>

fun py_split :: "char \<Rightarrow> string \<Rightarrow> string list" where
  "py_split sep [] = [[]]"
| "py_split sep (c # cs) =
     (let rest = py_split sep cs
      in if c = sep then [] # rest else (c # hd rest) # tl rest)"

definition read_requests :: "(string \<Rightarrow> int option) \<Rightarrow> string \<Rightarrow> py_error + int list" where
  "read_requests py_int req_str =
     traverse (\<lambda>t. case py_int t of None \<Rightarrow> Inl ValueError | Some n \<Rightarrow> Inr n)
       (py_split CHR '','' req_str)"

text \<open>
  A concrete reading of \<^verbatim>\<open>int\<close> for running the handlers on sample texts: blanks around the
  number are dropped, then comes an optional sign and at least one ASCII decimal digit.
  Where it returns a number, \<^verbatim>\<open>int\<close> returns the same number; \<^verbatim>\<open>int\<close> reads a few more
  texts (underscores between digits, other Unicode digits and blanks), for which it
  returns \<open>None\<close>. It is used on sample texts only: the theorems about the handlers hold
  for every \<open>py_int\<close>.
\<close>

definition is_space :: "char \<Rightarrow> bool" where
  "is_space c = (c \<in> set [CHR '' '', CHR 0x09, CHR 0x0A, CHR 0x0B, CHR 0x0C, CHR 0x0D])"

definition digit_of :: "char \<Rightarrow> int option" where
  "digit_of c =
     (let n = (of_char c :: nat)
      in if 48 \<le> n \<and> n \<le> 57 then Some (int n - 48) else None)"

fun digits_value :: "int \<Rightarrow> string \<Rightarrow> int option" where
  "digits_value acc [] = Some acc"
| "digits_value acc (c # cs) =
     (case digit_of c of None \<Rightarrow> None | Some d \<Rightarrow> digits_value (10 * acc + d) cs)"

definition ascii_int :: "string \<Rightarrow> int option" where
  "ascii_int s =
     (case rev (dropWhile is_space (rev (dropWhile is_space s))) of
        [] \<Rightarrow> None
      | c # cs \<Rightarrow>
          if c = CHR ''-'' then (if cs = [] then None else map_option uminus (digits_value 0 cs))
          else if c = CHR ''+'' then (if cs = [] then None else digits_value 0 cs)
          else digits_value 0 (c # cs))"

subsection \<open>True division\<close>

text \<open>
  \<^verbatim>\<open>a / b\<close> on two Python integers raises ZeroDivisionError when \<open>b\<close> is 0. Otherwise the
  result is a float, the IEEE 754 double nearest to the exact quotient, with ties going
  to the even significand; when that nearest double would be \<open>2 ^ 1024\<close> or more, Python
  raises OverflowError (integer division result too large for a float). A quotient too
  small for a double becomes 0.0, with no exception. A float is modelled by the rational
  number it stands for; infinities and NaN never come out of this division, and the sign
  of a zero is not kept.

  CPython computes the result with integers alone, and so does the model.
  \<open>round_half_even num den\<close> is the integer nearest to \<open>num / den\<close> for a positive \<open>den\<close>.
  \<open>binade a b\<close> is the exponent \<open>e\<close> with \<open>2 ^ e \<le> a / b < 2 ^ (e + 1)\<close> for positive \<open>a\<close> and
  \<open>b\<close>, found from the bit lengths of the two (\<^const>\<open>bitlen\<close> is \<^verbatim>\<open>int.bit_length\<close>). A
  double has a significand of 53 bits and its exponent is at least \<open>- 1022\<close>, so the
  doubles near \<open>a / b\<close> are the multiples of \<open>2 ^ s\<close> with \<open>s = max e (- 1022) - 52\<close>, and
  \<open>nearest_float a b\<close> is the nearest of them.
\<close>

definition round_half_even :: "int \<Rightarrow> int \<Rightarrow> int" where
  "round_half_even num den =
     (let n = num div den; r = num mod den
      in if 2 * r < den then n
         else if den < 2 * r then n + 1
         else if even n then n else n + 1)"

definition binade :: "int \<Rightarrow> int \<Rightarrow> int" where
  "binade a b =
     (let d = bitlen a - bitlen b
      in if (if 0 \<le> d then b * 2 ^ nat d \<le> a else b \<le> a * 2 ^ nat (- d)) then d else d - 1)"

definition nearest_float :: "int \<Rightarrow> int \<Rightarrow> rat" where
  "nearest_float a b =
     (let s = max (binade a b) (- 1022) - 52;
          m = (if 0 \<le> s then round_half_even a (b * 2 ^ nat s)
               else round_half_even (a * 2 ^ nat (- s)) b)
      in of_int m * 2 powi s)"

definition py_truediv :: "int \<Rightarrow> int \<Rightarrow> py_error + rat" where
  "py_truediv a b =
     (if b = 0 then Inl ZeroDivisionError
      else if a = 0 then Inr 0
      else (let x = nearest_float \<bar>a\<bar> \<bar>b\<bar>
            in if 2 ^ 1024 \<le> x then Inl OverflowError
               else Inr (if (a < 0) = (b < 0) then x else - x)))"

subsection \<open>The table of algorithms\<close>

text \<open>
  A Python dict keeps its keys in insertion order: an association list. Called through
  the table with two arguments, \<open>scan\<close> and \<open>c_scan\<close> take their defaults
  \<^verbatim>\<open>disk_size=200, direction="right"\<close>.
\<close>

definition algorithms :: "(string \<times> (int list \<Rightarrow> int \<Rightarrow> int list \<times> int)) list" where
  "algorithms =
     [(''FCFS'', fcfs),
      (''SSTF'', sstf),
      (''SCAN'', \<lambda>requests head. scan requests head 200 ''right''),
      (''C-SCAN'', \<lambda>requests head. c_scan requests head 200 ''right'')]"

definition dict_get :: "('k \<times> 'v) list \<Rightarrow> 'k \<Rightarrow> py_error + 'v" where
  "dict_get d k = (case map_of d k of None \<Rightarrow> Inl KeyError | Some v \<Rightarrow> Inr v)"

fun dict_set :: "('k \<times> 'v) list \<Rightarrow> 'k \<Rightarrow> 'v \<Rightarrow> ('k \<times> 'v) list" where
  "dict_set [] k v = [(k, v)]"
| "dict_set (p # ps) k v = (if fst p = k then (k, v) # ps else p # dict_set ps k v)"

subsection \<open>Run Simulation\<close>

text \<open>
  Lines 153 and 154:
  \<^verbatim>\<open>avg_seek = total / len(requests)\<close> and
  \<^verbatim>\<open>throughput = len(requests) / total if total != 0 else 0\<close>.
\<close>

definition display_results :: "int list \<Rightarrow> int \<Rightarrow> py_error + rat \<times> rat" where
  "display_results requests total_seek =
     (case py_truediv total_seek (int (length requests)) of
        Inl e \<Rightarrow> Inl e
      | Inr avg_seek \<Rightarrow>
          (case (if total_seek \<noteq> 0 then py_truediv (int (length requests)) total_seek else Inr 0) of
             Inl e \<Rightarrow> Inl e
           | Inr throughput \<Rightarrow> Inr (avg_seek, throughput)))"

text \<open>
  Lines 140 to 150, the call of the selected policy. \<open>algo\<close>, \<open>scan_direction\<close> and
  \<open>cscan_direction\<close> are the values of the select boxes; \<^verbatim>\<open>algorithms[algo]\<close> raises
  KeyError for a name that is not in the table.
\<close>

definition run_selected ::
  "string \<Rightarrow> int list \<Rightarrow> int \<Rightarrow> int \<Rightarrow> string \<Rightarrow> string \<Rightarrow> py_error + int list \<times> int" where
  "run_selected algo requests head disk_size scan_direction cscan_direction =
     (if algo = ''SCAN'' then Inr (scan requests head disk_size scan_direction)
      else if algo = ''C-SCAN'' then Inr (c_scan requests head disk_size cscan_direction)
      else (case dict_get algorithms algo of
              Inl e \<Rightarrow> Inl e
            | Inr selected_algo \<Rightarrow> Inr (selected_algo requests head)))"

text \<open>The handler, from the request text to the four values it prints.\<close>

definition run_simulation ::
  "(string \<Rightarrow> int option) \<Rightarrow> string \<Rightarrow> string \<Rightarrow> int \<Rightarrow> int \<Rightarrow> string \<Rightarrow> string
     \<Rightarrow> py_error + int list \<times> int \<times> rat \<times> rat" where
  "run_simulation py_int req_str algo head disk_size scan_direction cscan_direction =
     (case read_requests py_int req_str of
        Inl e \<Rightarrow> Inl e
      | Inr requests \<Rightarrow>
          (case run_selected algo requests head disk_size scan_direction cscan_direction of
             Inl e \<Rightarrow> Inl e
           | Inr (order, total_seek) \<Rightarrow>
               (case display_results requests total_seek of
                  Inl e \<Rightarrow> Inl e
                | Inr (avg_seek, throughput) \<Rightarrow> Inr (order, total_seek, avg_seek, throughput))))"

subsection \<open>Compare All Algorithms\<close>

text \<open>
  One pass of the loop over \<^verbatim>\<open>algorithms.items()\<close>, on the two dicts \<open>results\<close> and
  \<open>orders\<close>.
\<close>

type_synonym compare_dicts = "(string \<times> int) list \<times> (string \<times> int list) list"

definition compare_step ::
  "int list \<Rightarrow> int \<Rightarrow> int \<Rightarrow> compare_dicts
     \<Rightarrow> string \<times> (int list \<Rightarrow> int \<Rightarrow> int list \<times> int) \<Rightarrow> compare_dicts" where
  "compare_step request_list head disk_size dicts item =
     (case dicts of (results, orders) \<Rightarrow>
      case item of (name, fn) \<Rightarrow>
      case (if name = ''SCAN'' then scan request_list head disk_size ''right''
            else if name = ''C-SCAN'' then c_scan request_list head disk_size ''right''
            else fn request_list head) of (order, total_seek) \<Rightarrow>
        (dict_set results name total_seek, dict_set orders name order))"

text \<open>The table the handler displays, column by column.\<close>

record comparison =
  algorithm :: "string list"
  total_seek_time :: "int list"
  avg_seek_time :: "rat list"
  throughput :: "rat list"

definition compare_all ::
  "(string \<Rightarrow> int option) \<Rightarrow> string \<Rightarrow> int \<Rightarrow> int
     \<Rightarrow> py_error + comparison \<times> (string \<times> int list) list" where
  "compare_all py_int req_str head disk_size =
     (case read_requests py_int req_str of
        Inl e \<Rightarrow> Inl e
      | Inr request_list \<Rightarrow>
          (case foldl (compare_step request_list head disk_size) ([], []) algorithms of
             (results, orders) \<Rightarrow>
               (case traverse (\<lambda>a. case dict_get results a of
                                      Inl e \<Rightarrow> Inl e
                                    | Inr t \<Rightarrow> py_truediv t (int (length request_list)))
                       (map fst results) of
                  Inl e \<Rightarrow> Inl e
                | Inr avgs \<Rightarrow>
                    (case traverse (\<lambda>a. case dict_get results a of
                                           Inl e \<Rightarrow> Inl e
                                         | Inr t \<Rightarrow>
                                             if t \<noteq> 0 then py_truediv (int (length request_list)) t
                                             else Inr 0)
                            (map fst results) of
                       Inl e \<Rightarrow> Inl e
                     | Inr thrs \<Rightarrow>
                         Inr (\<lparr>algorithm = map fst results,
                               total_seek_time = map snd results,
                               avg_seek_time = avgs,
                               throughput = thrs\<rparr>, orders)))))"

section \<open>The policies on a store of lists\<close>

text \<open>
  Whether a policy changes the list its caller passed depends on which list objects it
  writes to. Here a list variable holds an address, the store maps addresses to list
  values, and creating a list takes the next free address. Python integers are immutable,
  so only lists live in the store. The lists of the model are those bound to a name;
  a temporary of an expression is never written after it is built.
\<close>

record heap =
  cells :: "nat \<Rightarrow> int list"
  next_free :: nat

definition alloc :: "int list \<Rightarrow> heap \<Rightarrow> nat \<times> heap" where
  "alloc v h = (next_free h, \<lparr>cells = (cells h)(next_free h := v), next_free = Suc (next_free h)\<rparr>)"

definition store :: "nat \<Rightarrow> int list \<Rightarrow> heap \<Rightarrow> heap" where
  "store a v h = h\<lparr>cells := (cells h)(a := v)\<rparr>"

text \<open>\<^verbatim>\<open>order = [head] + requests\<close> builds a new list.\<close>

definition fcfs_h :: "nat \<Rightarrow> int \<Rightarrow> heap \<Rightarrow> nat \<times> int \<times> heap" where
  "fcfs_h requests head h =
     (case alloc ([head] @ cells h requests) h of (order, h1) \<Rightarrow>
        (order, seek_total (cells h1 order), h1))"

text \<open>
  The loop of \<open>sstf\<close> appends to the list at \<open>order\<close> and removes from the list at \<open>reqs\<close>,
  both in place. When the two addresses are the same list the loop never ends, so the
  function returns an option, \<open>None\<close> for a loop that does not return.
\<close>

partial_function (option) sstf_loop_h :: "nat \<Rightarrow> nat \<Rightarrow> int \<Rightarrow> heap \<Rightarrow> heap option" where
  "sstf_loop_h reqs order current h =
     (if cells h reqs \<noteq> [] then
        (let nearest = py_min (\<lambda>x. \<bar>x - current\<bar>) (cells h reqs);
             h1 = store order (cells h order @ [nearest]) h;
             h2 = store reqs (remove1 nearest (cells h1 reqs)) h1
         in sstf_loop_h reqs order nearest h2)
      else Some h)"

declare sstf_loop_h.simps [code]

text \<open>\<^verbatim>\<open>reqs = requests.copy()\<close> and \<^verbatim>\<open>order = [head]\<close> build new lists.\<close>

definition sstf_h :: "nat \<Rightarrow> int \<Rightarrow> heap \<Rightarrow> (nat \<times> int \<times> heap) option" where
  "sstf_h requests head h =
     (case alloc (cells h requests) h of (reqs, h1) \<Rightarrow>
      case alloc [head] h1 of (order, h2) \<Rightarrow>
      case sstf_loop_h reqs order head h2 of
        None \<Rightarrow> None
      | Some h3 \<Rightarrow> Some (order, seek_total (cells h3 order), h3))"

text \<open>
  In \<open>scan\<close>, \<^verbatim>\<open>sorted\<close> of a list comprehension builds a new list, and \<^verbatim>\<open>order += ...\<close>
  extends the list at \<open>order\<close> in place.
\<close>

definition scan_h :: "nat \<Rightarrow> int \<Rightarrow> int \<Rightarrow> string \<Rightarrow> heap \<Rightarrow> nat \<times> int \<times> heap" where
  "scan_h requests head disk_size direction h =
     (case alloc (sort (filter (\<lambda>r. r < head) (cells h requests))) h of (left, h1) \<Rightarrow>
      case alloc (sort (filter (\<lambda>r. r \<ge> head) (cells h1 requests))) h1 of (right, h2) \<Rightarrow>
      case alloc [head] h2 of (order, h3) \<Rightarrow>
        (let h4 = (if direction = ''right''
                   then store order
                          (cells h3 order @ (cells h3 right @ [disk_size - 1] @ rev (cells h3 left))) h3
                   else store order
                          (cells h3 order @ (rev (cells h3 left) @ [0] @ cells h3 right)) h3)
         in (order, seek_total (cells h4 order), h4)))"

definition c_scan_h :: "nat \<Rightarrow> int \<Rightarrow> int \<Rightarrow> string \<Rightarrow> heap \<Rightarrow> nat \<times> int \<times> heap" where
  "c_scan_h requests head disk_size direction h =
     (case alloc (sort (filter (\<lambda>r. r < head) (cells h requests))) h of (left, h1) \<Rightarrow>
      case alloc (sort (filter (\<lambda>r. r \<ge> head) (cells h1 requests))) h1 of (right, h2) \<Rightarrow>
      case (if direction = ''right''
            then alloc ([head] @ cells h2 right @ [disk_size - 1, 0] @ cells h2 left) h2
            else alloc ([head] @ rev (cells h2 left) @ [0, disk_size - 1] @ rev (cells h2 right)) h2)
        of (order, h3) \<Rightarrow>
        (order, seek_total (cells h3 order), h3))"

section \<open>Properties of the SSTF loop\<close>

subsection \<open>What \<open>min\<close> with a key returns\<close>





subsection \<open>The loop, one pass at a time\<close>

lemma sstf_body_order:
  "fst (snd (sstf_body s)) = fst (snd s) @ [snd (snd (sstf_body s))]"
  by (cases s) (simp add: sstf_body_def Let_def)

lemma sstf_body_current:
  "snd (snd (sstf_body s)) = py_min (\<lambda>x. \<bar>x - snd (snd s)\<bar>) (fst s)"
  by (cases s) (simp add: sstf_body_def Let_def)

lemma sstf_body_reqs:
  "fst (sstf_body s) = remove1 (snd (snd (sstf_body s))) (fst s)"
  by (cases s) (simp add: sstf_body_def Let_def)

lemma sstf_iter_length:
  "length (fst (snd ((sstf_body ^^ k) s))) = length (fst (snd s)) + k"
  by (induction k) (simp_all add: sstf_body_order)

lemma sstf_iter_take:
  "j \<le> k \<Longrightarrow>
   fst (snd ((sstf_body ^^ j) s)) = take (length (fst (snd s)) + j) (fst (snd ((sstf_body ^^ k) s)))"
proof (induction k)
  case 0
  then show ?case by simp
next
  case (Suc k)
  show ?case
  proof (cases "j = Suc k")
    case True
    then show ?thesis using sstf_iter_length [of "Suc k" s] by simp
  next
    case False
    with Suc.prems have "j \<le> k" by simp
    with Suc.IH show ?thesis
      by (simp add: sstf_body_order sstf_iter_length)
  qed
qed


lemma sstf_iter_reqs:
  "k \<le> length (fst s) \<Longrightarrow>
   mset (fst ((sstf_body ^^ k) s))
     + mset (drop (length (fst (snd s))) (fst (snd ((sstf_body ^^ k) s)))) = mset (fst s)"
proof (induction k)
  case 0
  then show ?case by simp
next
  case (Suc k)
  let ?t = "(sstf_body ^^ k) s"
  from Suc have IH: "mset (fst ?t) + mset (drop (length (fst (snd s))) (fst (snd ?t))) = mset (fst s)"
    by simp
  then have "length (fst ?t) + (length (fst (snd ?t)) - length (fst (snd s))) = length (fst s)"
    by (metis length_drop size_mset size_union)
  with Suc.prems have ne: "fst ?t \<noteq> []"
    by (auto simp: sstf_iter_length)
  have mem: "snd (snd (sstf_body ?t)) \<in> set (fst ?t)"
    by (simp add: sstf_body_current py_min_mem ne)
  have le: "length (fst (snd s)) \<le> length (fst (snd ?t))"
    by (simp add: sstf_iter_length)
  let ?x = "snd (snd (sstf_body ?t))"
  have "mset (fst (sstf_body ?t)) = mset (fst ?t) - {#?x#}"
    by (simp add: sstf_body_reqs [of ?t])
  moreover have "drop (length (fst (snd s))) (fst (snd (sstf_body ?t)))
      = drop (length (fst (snd s))) (fst (snd ?t)) @ [?x]"
    using le by (simp add: sstf_body_order [of ?t])
  ultimately have "mset (fst (sstf_body ?t))
      + mset (drop (length (fst (snd s))) (fst (snd (sstf_body ?t))))
    = (mset (fst ?t) - {#?x#}) + {#?x#} + mset (drop (length (fst (snd s))) (fst (snd ?t)))"
    by simp
  also have "(mset (fst ?t) - {#?x#}) + {#?x#} = mset (fst ?t)"
    using mem by simp
  finally show ?case using IH by simp
qed

lemma sstf_iter_reqs_length:
  "k \<le> length (fst s) \<Longrightarrow> length (fst ((sstf_body ^^ k) s)) = length (fst s) - k"
proof -
  assume k: "k \<le> length (fst s)"
  from sstf_iter_reqs [OF k]
  have "length (fst ((sstf_body ^^ k) s))
          + (length (fst (snd ((sstf_body ^^ k) s))) - length (fst (snd s))) = length (fst s)"
    by (metis length_drop size_mset size_union)
  then show ?thesis by (simp add: sstf_iter_length)
qed

lemma sstf_loop_done: "fst s = [] \<Longrightarrow> sstf_loop s = s"
  by (simp add: sstf_loop.simps [of s])

lemma sstf_loop_step: "fst s \<noteq> [] \<Longrightarrow> sstf_loop s = sstf_loop (sstf_body s)"
  by (simp add: sstf_loop.simps [of s])

lemma sstf_loop_iter: "sstf_loop s = (sstf_body ^^ length (fst s)) s"
proof (induction s rule: sstf_loop.induct)
  case (1 s)
  show ?case
  proof (cases "fst s = []")
    case True
    then show ?thesis by (simp add: sstf_loop.simps [of s])
  next
    case False
    then have mem: "snd (snd (sstf_body s)) \<in> set (fst s)"
      by (simp add: sstf_body_current py_min_mem)
    then have "length (fst s) = Suc (length (fst (sstf_body s)))"
      using False by (simp add: sstf_body_reqs [of s] length_remove1)
    with False 1 show ?thesis
      by (simp add: sstf_loop.simps [of s] funpow_swap1)
  qed
qed


subsection \<open>The order that \<open>sstf\<close> returns\<close>

lemma sstf_order_iter:
  "fst (sstf requests head) = fst (snd ((sstf_body ^^ length requests) (requests, [head], head)))"
  by (simp add: sstf_def sstf_loop_iter split: prod.split)

lemma sstf_total: "snd (sstf requests head) = seek_total (fst (sstf requests head))"
  by (simp add: sstf_def split: prod.split)

lemma sstf_length: "length (fst (sstf requests head)) = Suc (length requests)"
  by (simp add: sstf_order_iter sstf_iter_length)

lemma sstf_prefix:
  "k \<le> length requests \<Longrightarrow>
   fst (snd ((sstf_body ^^ k) (requests, [head], head))) = take (Suc k) (fst (sstf requests head))"
  using sstf_iter_take [of k "length requests" "(requests, [head], head)"]
  by (simp add: sstf_order_iter)

lemma sstf_head: "fst (sstf requests head) ! 0 = head"
proof -
  have "take (Suc 0) (fst (sstf requests head)) = [head]"
    using sstf_prefix [of 0 requests head] by simp
  then show ?thesis
    by (metis nth_Cons_0 nth_take zero_less_Suc)
qed

lemma sstf_visits_all: "mset (tl (fst (sstf requests head))) = mset requests"
proof -
  let ?s = "(requests, [head], head)"
  have "length (fst ((sstf_body ^^ length requests) ?s)) = 0"
    using sstf_iter_reqs_length [of "length requests" ?s] by simp
  then have "fst ((sstf_body ^^ length requests) ?s) = []" by simp
  with sstf_iter_reqs [of "length requests" ?s] show ?thesis
    by (simp add: sstf_order_iter drop_Suc)
qed

section \<open>Properties of the totals and of the partition\<close>

lemma seek_total_sum:
  "seek_total order = (\<Sum>i = 1..<length order. \<bar>order ! i - order ! (i - 1)\<bar>)"
  by (simp add: seek_total_def interv_sum_list_conv_sum_set_nat)

lemma partition_lengths:
  "length (filter (\<lambda>r. r < head) requests) + length (filter (\<lambda>r. head \<le> r) requests)
     = length requests" for head :: int
  using sum_length_filter_compl [of "\<lambda>r. r < head" requests] by (simp add: not_less)

section \<open>Properties of true division\<close>

lemma round_half_even_error:
  assumes "0 < den"
  shows "\<bar>of_int (round_half_even num den) - (of_int num / of_int den :: rat)\<bar> \<le> 1 / 2"
proof -
  define n where "n = num div den"
  define r where "r = num mod den"
  have num: "num = den * n + r" by (simp add: n_def r_def)
  have r: "0 \<le> r" "r < den" using assms by (simp_all add: r_def)
  have q: "(of_int num / of_int den :: rat) = of_int n + of_int r / of_int den"
    using assms by (simp add: num field_simps)
  have frac: "0 \<le> (of_int r / of_int den :: rat)" "(of_int r / of_int den :: rat) < 1"
    using assms r by simp_all
  have "(of_int r / of_int den :: rat) < 1 / 2 \<longleftrightarrow> (of_int (2 * r) :: rat) < of_int den"
    using assms by (simp add: field_simps)
  then have lt: "(of_int r / of_int den :: rat) < 1 / 2 \<longleftrightarrow> 2 * r < den"
    by (simp only: of_int_less_iff)
  have "1 / 2 < (of_int r / of_int den :: rat) \<longleftrightarrow> (of_int den :: rat) < of_int (2 * r)"
    using assms by (simp add: field_simps)
  then have gt: "1 / 2 < (of_int r / of_int den :: rat) \<longleftrightarrow> den < 2 * r"
    by (simp only: of_int_less_iff)
  show ?thesis
    unfolding round_half_even_def Let_def n_def [symmetric] r_def [symmetric] q
    using frac lt gt by (auto simp: abs_if)
qed


lemma bitlen_powi:
  assumes "0 < a"
  shows "2 powi (bitlen a - 1) \<le> (of_int a :: rat)" and "(of_int a :: rat) < 2 powi bitlen a"
proof -
  from assms have pos: "1 \<le> bitlen a"
    using bitlen_eq_zero_iff [of a] bitlen_nonneg [of a] by linarith
  from bitlen_bounds [OF assms] have "2 ^ nat (bitlen a - 1) \<le> a" "a < 2 ^ nat (bitlen a)"
    by simp_all
  then have "(of_int (2 ^ nat (bitlen a - 1)) :: rat) \<le> of_int a"
    "(of_int a :: rat) < of_int (2 ^ nat (bitlen a))"
    by (simp_all only: of_int_le_iff of_int_less_iff)
  then show "2 powi (bitlen a - 1) \<le> (of_int a :: rat)" "(of_int a :: rat) < 2 powi bitlen a"
    using pos by (simp_all add: power_int_nonneg_exp)
qed

lemma binade_test:
  assumes "0 < a" "0 < b"
  shows "(if 0 \<le> d then b * 2 ^ nat d \<le> a else b \<le> a * 2 ^ nat (- d))
     \<longleftrightarrow> 2 powi d \<le> (of_int a / of_int b :: rat)"
proof (cases "0 \<le> d")
  case True
  have "b * 2 ^ nat d \<le> a \<longleftrightarrow> (of_int (b * 2 ^ nat d) :: rat) \<le> of_int a"
    by (simp only: of_int_le_iff)
  also have "\<dots> \<longleftrightarrow> 2 powi d \<le> (of_int a / of_int b :: rat)"
    using assms True by (simp add: power_int_nonneg_exp field_simps)
  finally show ?thesis using True by simp
next
  case False
  then have d: "2 powi d = (1 / 2 ^ nat (- d) :: rat)"
    by (simp add: power_int_def field_simps)
  have "b \<le> a * 2 ^ nat (- d) \<longleftrightarrow> (of_int b :: rat) \<le> of_int (a * 2 ^ nat (- d))"
    by (simp only: of_int_le_iff)
  also have "\<dots> \<longleftrightarrow> 2 powi d \<le> (of_int a / of_int b :: rat)"
    using assms by (simp add: d field_simps)
  finally show ?thesis using False by simp
qed

lemma binade_bounds:
  assumes "0 < a" "0 < b"
  shows "2 powi binade a b \<le> (of_int a / of_int b :: rat)"
    and "(of_int a / of_int b :: rat) < 2 powi (binade a b + 1)"
proof -
  define d where "d = bitlen a - bitlen b"
  define A B :: rat where "A = of_int a" and "B = of_int b"
  define PA PA' PB PB' :: rat where "PA = 2 powi bitlen a" and "PA' = 2 powi (bitlen a - 1)"
    and "PB = 2 powi bitlen b" and "PB' = 2 powi (bitlen b - 1)"
  have pos: "0 < A" "0 < B" "0 < PA" "0 < PA'" "0 < PB" "0 < PB'"
    using assms by (simp_all add: A_def B_def PA_def PA'_def PB_def PB'_def)
  have a: "PA' \<le> A" "A < PA" and b: "PB' \<le> B" "B < PB"
    using bitlen_powi [OF assms(1)] bitlen_powi [OF assms(2)]
    by (simp_all add: A_def B_def PA_def PA'_def PB_def PB'_def)
  have "2 powi (d - 1) = PA' / PB"
    using power_int_diff [of "2 :: rat" "bitlen a - 1" "bitlen b"]
    by (simp add: d_def PA'_def PB_def algebra_simps)
  also have "\<dots> \<le> A / PB"
    using a(1) pos by (simp add: divide_right_mono)
  also have "\<dots> < A / B"
    using b(2) pos by (simp add: divide_strict_left_mono)
  finally have lower: "2 powi (d - 1) < A / B" .
  have "A / B < PA / B"
    using a(2) pos by (simp add: divide_strict_right_mono)
  also have "\<dots> \<le> PA / PB'"
    using b(1) pos by (simp add: divide_left_mono)
  also have "\<dots> = 2 powi (d + 1)"
    using power_int_diff [of "2 :: rat" "bitlen a" "bitlen b - 1"]
    by (simp add: d_def PA_def PB'_def algebra_simps)
  finally have upper: "A / B < 2 powi (d + 1)" .
  have test: "binade a b = (if 2 powi d \<le> A / B then d else d - 1)"
    unfolding binade_def Let_def d_def [symmetric] binade_test [OF assms] A_def B_def ..
  show "2 powi binade a b \<le> (of_int a / of_int b :: rat)"
    using lower unfolding test A_def [symmetric] B_def [symmetric] by auto
  show "(of_int a / of_int b :: rat) < 2 powi (binade a b + 1)"
    using upper unfolding test A_def [symmetric] B_def [symmetric] by auto
qed

lemma nearest_float_form:
  assumes "0 < a" "0 < b"
  defines "s \<equiv> max (binade a b) (- 1022) - 52"
  shows "\<exists>m. nearest_float a b = of_int m * 2 powi s
     \<and> \<bar>of_int m - (of_int a / of_int b) / 2 powi s\<bar> \<le> (1 / 2 :: rat)"
proof (cases "0 \<le> s")
  case True
  let ?m = "round_half_even a (b * 2 ^ nat s)"
  have "nearest_float a b = of_int ?m * 2 powi s"
    using True by (simp add: nearest_float_def Let_def s_def)
  moreover have "(of_int a / of_int (b * 2 ^ nat s) :: rat) = (of_int a / of_int b) / 2 powi s"
    using True by (simp add: power_int_nonneg_exp)
  moreover have "0 < b * 2 ^ nat s" using assms by simp
  ultimately show ?thesis
    using round_half_even_error [of "b * 2 ^ nat s" a] by metis
next
  case False
  let ?m = "round_half_even (a * 2 ^ nat (- s)) b"
  have "nearest_float a b = of_int ?m * 2 powi s"
    using False by (simp add: nearest_float_def Let_def s_def)
  moreover from False have "2 powi s = (1 / 2 ^ nat (- s) :: rat)"
    by (simp add: power_int_def field_simps)
  then have "(of_int (a * 2 ^ nat (- s)) / of_int b :: rat) = (of_int a / of_int b) / 2 powi s"
    by simp
  ultimately show ?thesis
    using round_half_even_error [OF assms(2), of "a * 2 ^ nat (- s)"] by metis
qed


lemma nearest_float_is_double:
  assumes "0 < a" "0 < b"
  shows "\<exists>m s. nearest_float a b = of_int m * 2 powi s \<and> 0 \<le> m \<and> m \<le> 2 ^ 53 \<and> - 1074 \<le> s"
proof -
  define e where "e = max (binade a b) (- 1022)"
  define q :: rat where "q = of_int a / of_int b"
  define P :: rat where "P = 2 powi (e - 52)"
  have P: "0 < P" by (simp add: P_def)
  from nearest_float_form [OF assms] obtain m where
    m: "nearest_float a b = of_int m * P" and near: "\<bar>of_int m - q / P\<bar> \<le> 1 / 2"
    unfolding e_def [symmetric] q_def [symmetric] P_def [symmetric] by blast
  have "0 < q" using assms by (simp add: q_def)
  with P have low: "0 < q / P" by simp
  have "q < 2 powi (binade a b + 1)"
    unfolding q_def using assms by (rule binade_bounds)
  also have "\<dots> \<le> 2 powi (e + 1)"
    by (rule power_int_increasing) (simp_all add: e_def)
  also have "\<dots> = 2 ^ 53 * P"
    using power_int_add [of "2 :: rat" 53 "e - 52"] by (simp add: P_def algebra_simps)
  finally have high: "q / P < 2 ^ 53"
    using P by (simp add: field_simps)
  from near low have "- 1 < (of_int m :: rat)" by linarith
  then have "(of_int (- 1) :: rat) < of_int m" by simp
  then have m0: "0 \<le> m" unfolding of_int_less_iff by simp
  from near high have "(of_int m :: rat) < 2 ^ 53 + 1" by linarith
  then have "(of_int m :: rat) < of_int (2 ^ 53 + 1)" by simp
  then have m1: "m \<le> 2 ^ 53" unfolding of_int_less_iff by simp
  have "- 1074 \<le> e - 52" by (simp add: e_def)
  with m m0 m1 show ?thesis unfolding P_def by blast
qed

lemma nearest_float_error:
  assumes "0 < a" "0 < b"
  shows "\<bar>nearest_float a b - of_int a / of_int b\<bar>
    \<le> max (of_int a / of_int b / 2 ^ 53) (1 / 2 ^ 1075 :: rat)"
proof -
  define e where "e = max (binade a b) (- 1022)"
  define q :: rat where "q = of_int a / of_int b"
  define P :: rat where "P = 2 powi (e - 52)"
  have P: "0 < P" by (simp add: P_def)
  from nearest_float_form [OF assms] obtain m where
    m: "nearest_float a b = of_int m * P" and near: "\<bar>of_int m - q / P\<bar> \<le> 1 / 2"
    unfolding e_def [symmetric] q_def [symmetric] P_def [symmetric] by blast
  have "of_int m * P - q = (of_int m - q / P) * P"
    using P by (simp add: field_simps)
  then have "\<bar>of_int m * P - q\<bar> = \<bar>of_int m - q / P\<bar> * \<bar>P\<bar>"
    by (simp only: abs_mult)
  also have "\<dots> = \<bar>of_int m - q / P\<bar> * P"
    using P by simp
  also have "\<dots> \<le> 1 / 2 * P"
    using near P by (simp add: mult_right_mono)
  also have "\<dots> = 2 powi (e - 53)"
    using power_int_add [of "2 :: rat" "e - 53" 1] by (simp add: P_def)
  finally have half: "\<bar>nearest_float a b - q\<bar> \<le> 2 powi (e - 53)"
    by (simp add: m)
  have "2 powi (e - 53) \<le> max (q / 2 ^ 53) (1 / 2 ^ 1075 :: rat)"
  proof (cases "- 1022 \<le> binade a b")
    case True
    then have "e = binade a b" by (simp add: e_def)
    then have "2 powi (e - 53) = (2 powi binade a b / 2 ^ 53 :: rat)"
      using power_int_diff [of "2 :: rat" "binade a b" 53] by simp
    also have "\<dots> \<le> q / 2 ^ 53"
      using binade_bounds(1) [OF assms] by (simp add: q_def divide_right_mono)
    finally show ?thesis by simp
  next
    case False
    then have "e = - 1022" by (simp add: e_def)
    then have "2 powi (e - 53) = (2 powi (- 1075) :: rat)" by simp
    also have "\<dots> = 1 / 2 ^ 1075"
      by (simp only: power_int_minus_divide power_int_numeral)
    finally show ?thesis by (simp only: max.cobounded2)
  qed
  with half show ?thesis unfolding q_def by linarith
qed

lemma py_truediv_pos:
  "0 < a \<Longrightarrow> 0 < b \<Longrightarrow>
   py_truediv a b
     = (if nearest_float a b < 2 ^ 1024 then Inr (nearest_float a b) else Inl OverflowError)"
  by (simp add: py_truediv_def Let_def not_le)

lemma float_samples:
  "nearest_float 305 3 = 7154155658062507 / 2 ^ 46"
  "nearest_float 3 305 = 5670105760361543 / 2 ^ 59"
  "nearest_float 194 1 = 194"
  "nearest_float 1 194 = 5942894353643541 / 2 ^ 60"
  "nearest_float 194 2 = 97"
  "nearest_float 2 194 = 5942894353643541 / 2 ^ 59"
  "nearest_float 247 3 = 5793693270627669 / 2 ^ 46"
  "nearest_float 3 247 = 3500773799413503 / 2 ^ 58"
  "nearest_float 134 3 = 6286274479871317 / 2 ^ 47"
  "nearest_float 3 134 = 6452918869068173 / 2 ^ 58"
  "nearest_float 391 3 = 4585696495577771 / 2 ^ 45"
  "nearest_float 3 391 = 1105743131016797 / 2 ^ 57"
  by code_simp+

section \<open>Properties of the handlers\<close>

lemma py_split_nonempty: "py_split sep s \<noteq> []"
  by (induction s) (simp_all add: Let_def)

lemma traverse_length: "traverse f xs = Inr ys \<Longrightarrow> length ys = length xs"
  by (induction xs arbitrary: ys) (auto split: sum.splits)

lemma read_requests_nonempty: "read_requests py_int req_str = Inr requests \<Longrightarrow> requests \<noteq> []"
  using traverse_length py_split_nonempty unfolding read_requests_def
  by (metis length_0_conv)

lemma read_requests_never_empty: "read_requests py_int req_str \<noteq> Inr []"
  using read_requests_nonempty by blast

lemma seek_total_nonneg: "0 \<le> seek_total order"
  unfolding seek_total_sum by (rule sum_nonneg) simp

lemma display_results_nonempty:
  assumes "requests \<noteq> []" "0 \<le> total_seek"
  shows "display_results requests total_seek
     = (if total_seek = 0 then Inr (0, 0)
        else if nearest_float total_seek (int (length requests)) < 2 ^ 1024
              \<and> nearest_float (int (length requests)) total_seek < 2 ^ 1024
        then Inr (nearest_float total_seek (int (length requests)),
                  nearest_float (int (length requests)) total_seek)
        else Inl OverflowError)"
proof (cases "total_seek = 0")
  case True
  with assms show ?thesis by (simp add: display_results_def py_truediv_def)
next
  case False
  with assms have "0 < total_seek" "0 < int (length requests)" by simp_all
  then show ?thesis
    using False by (simp add: display_results_def py_truediv_pos)
qed

lemma display_results_empty: "display_results [] total_seek = Inl ZeroDivisionError"
  by (simp add: display_results_def py_truediv_def)

lemma policy_totals:
  "snd (fcfs requests head) = seek_total (fst (fcfs requests head))"
  "snd (scan requests head disk_size direction) = seek_total (fst (scan requests head disk_size direction))"
  "snd (c_scan requests head disk_size direction) = seek_total (fst (c_scan requests head disk_size direction))"
  by (simp_all add: fcfs_def scan_def c_scan_def Let_def)

lemma policy_lengths:
  "length (fst (fcfs requests head)) = length requests + 1"
  "length (fst (scan requests head disk_size direction)) = length requests + 2"
  "length (fst (c_scan requests head disk_size direction)) = length requests + 3"
  using partition_lengths [of head requests]
  by (simp_all add: fcfs_def scan_def c_scan_def Let_def)

lemma compare_loop:
  "foldl (compare_step request_list head disk_size) ([], []) algorithms
     = ([(''FCFS'', snd (fcfs request_list head)),
         (''SSTF'', snd (sstf request_list head)),
         (''SCAN'', snd (scan request_list head disk_size ''right'')),
         (''C-SCAN'', snd (c_scan request_list head disk_size ''right''))],
        [(''FCFS'', fst (fcfs request_list head)),
         (''SSTF'', fst (sstf request_list head)),
         (''SCAN'', fst (scan request_list head disk_size ''right'')),
         (''C-SCAN'', fst (c_scan request_list head disk_size ''right''))])"
  by (simp add: algorithms_def compare_step_def split: prod.split)

lemma traverse_if:
  "traverse (\<lambda>x. if ok x then Inr (g x) else Inl e) xs
     = (if list_all ok xs then Inr (map g xs) else Inl e)"
  by (induction xs) simp_all

lemma traverse_cong:
  "(\<And>x. x \<in> set xs \<Longrightarrow> f x = g x) \<Longrightarrow> traverse f xs = traverse g xs"
  by (induction xs) (auto split: sum.splits)

lemma policy_totals_nonneg:
  "0 \<le> snd (fcfs requests head)" "0 \<le> snd (sstf requests head)"
  "0 \<le> snd (scan requests head disk_size direction)"
  "0 \<le> snd (c_scan requests head disk_size direction)"
  by (simp_all add: policy_totals sstf_total seek_total_nonneg)


lemma table_column:
  "traverse (\<lambda>a. case dict_get [(''FCFS'', t1), (''SSTF'', t2), (''SCAN'', t3), (''C-SCAN'', t4)] a of
                   Inl e \<Rightarrow> Inl e
                 | Inr t \<Rightarrow> f t)
     (map fst [(''FCFS'', t1), (''SSTF'', t2), (''SCAN'', t3), (''C-SCAN'', t4)])
   = traverse f [t1, t2, t3, t4]"
  by (simp add: dict_get_def split: sum.split)

lemma avg_column:
  assumes "0 < n" "\<forall>t\<in>set ts. 0 \<le> t"
  shows "traverse (\<lambda>t. py_truediv t n) ts
     = (if list_all (\<lambda>t. t = 0 \<or> nearest_float t n < 2 ^ 1024) ts
        then Inr (map (\<lambda>t. if t = 0 then 0 else nearest_float t n) ts)
        else Inl OverflowError)"
proof -
  have "traverse (\<lambda>t. py_truediv t n) ts
      = traverse (\<lambda>t. if t = 0 \<or> nearest_float t n < 2 ^ 1024
                       then Inr (if t = 0 then 0 else nearest_float t n)
                       else Inl OverflowError) ts"
  proof (rule traverse_cong)
    fix t assume "t \<in> set ts"
    with assms have "t = 0 \<or> 0 < t" by fastforce
    then show "py_truediv t n
       = (if t = 0 \<or> nearest_float t n < 2 ^ 1024
          then Inr (if t = 0 then 0 else nearest_float t n)
          else Inl OverflowError)"
    proof
      assume "t = 0"
      with assms(1) show ?thesis by (simp add: py_truediv_def)
    next
      assume "0 < t"
      with assms(1) show ?thesis by (simp add: py_truediv_pos)
    qed
  qed
  then show ?thesis by (simp only: traverse_if)
qed

lemma throughput_column:
  assumes "0 < n" "\<forall>t\<in>set ts. 0 \<le> t"
  shows "traverse (\<lambda>t. if t \<noteq> 0 then py_truediv n t else Inr 0) ts
     = (if list_all (\<lambda>t. t = 0 \<or> nearest_float n t < 2 ^ 1024) ts
        then Inr (map (\<lambda>t. if t = 0 then 0 else nearest_float n t) ts)
        else Inl OverflowError)"
proof -
  have "traverse (\<lambda>t. if t \<noteq> 0 then py_truediv n t else Inr 0) ts
      = traverse (\<lambda>t. if t = 0 \<or> nearest_float n t < 2 ^ 1024
                       then Inr (if t = 0 then 0 else nearest_float n t)
                       else Inl OverflowError) ts"
  proof (rule traverse_cong)
    fix t assume "t \<in> set ts"
    with assms have "t = 0 \<or> 0 < t" by fastforce
    then show "(if t \<noteq> 0 then py_truediv n t else Inr 0)
       = (if t = 0 \<or> nearest_float n t < 2 ^ 1024
          then Inr (if t = 0 then 0 else nearest_float n t)
          else Inl OverflowError)"
      using assms(1) by (auto simp: py_truediv_pos)
  qed
  then show ?thesis by (simp only: traverse_if)
qed

lemma sample_read: "read_requests ascii_int ''82, 170, 43'' = Inr [82, 170, 43]"
  by (simp add: read_requests_def ascii_int_def is_space_def digit_of_def)

lemma big_read:
  "read_requests ascii_int (CHR ''2'' # replicate 308 CHR ''0'') = Inr [2 * 10 ^ 308]"
  by code_simp

lemma big_div: "py_truediv (2 * 10 ^ 308) 1 = Inl OverflowError"
  by code_simp

section \<open>Properties of the policies on the store\<close>

lemma sstf_loop_h_returns:
  assumes "reqs \<noteq> order"
  shows "\<exists>h'. sstf_loop_h reqs order current h = Some h'
     \<and> cells h' order = fst (snd (sstf_loop (cells h reqs, cells h order, current)))
     \<and> cells h' reqs = []
     \<and> (\<forall>a. a \<noteq> reqs \<and> a \<noteq> order \<longrightarrow> cells h' a = cells h a)
     \<and> next_free h' = next_free h"
proof (induction "length (cells h reqs)" arbitrary: h current rule: less_induct)
  case less
  let ?s = "(cells h reqs, cells h order, current)"
  show ?case
  proof (cases "cells h reqs = []")
    case True
    then have "sstf_loop_h reqs order current h = Some h"
      by (subst sstf_loop_h.simps) simp
    moreover from True have "sstf_loop ?s = ?s"
      by (intro sstf_loop_done) simp
    ultimately show ?thesis using True by simp
  next
    case False
    define nearest where "nearest = py_min (\<lambda>x. \<bar>x - current\<bar>) (cells h reqs)"
    define h1 where "h1 = store order (cells h order @ [nearest]) h"
    define h2 where "h2 = store reqs (remove1 nearest (cells h1 reqs)) h1"
    have step: "sstf_loop_h reqs order current h = sstf_loop_h reqs order nearest h2"
      using False by (subst sstf_loop_h.simps) (simp add: Let_def nearest_def h1_def h2_def)
    have cells2: "cells h2 reqs = remove1 nearest (cells h reqs)"
      "cells h2 order = cells h order @ [nearest]"
      "\<And>a. a \<noteq> reqs \<and> a \<noteq> order \<Longrightarrow> cells h2 a = cells h a"
      "next_free h2 = next_free h"
      using assms by (simp_all add: h1_def h2_def store_def)
    have "nearest \<in> set (cells h reqs)"
      unfolding nearest_def using False by (rule py_min_mem)
    then have "length (cells h2 reqs) < length (cells h reqs)"
      using False by (simp add: cells2 length_remove1)
    from less [OF this, of nearest] obtain h' where h':
      "sstf_loop_h reqs order nearest h2 = Some h'"
      "cells h' order = fst (snd (sstf_loop (cells h2 reqs, cells h2 order, nearest)))"
      "cells h' reqs = []"
      "\<forall>a. a \<noteq> reqs \<and> a \<noteq> order \<longrightarrow> cells h' a = cells h2 a"
      "next_free h' = next_free h2"
      by blast
    have "sstf_body ?s = (cells h2 reqs, cells h2 order, nearest)"
      by (simp add: sstf_body_def Let_def nearest_def cells2)
    then have "sstf_loop ?s = sstf_loop (cells h2 reqs, cells h2 order, nearest)"
      using False sstf_loop_step [of ?s] by simp
    with step h' cells2 show ?thesis by simp
  qed
qed

lemma sstf_h_returns:
  "\<exists>order h'. sstf_h requests head h = Some (order, snd (sstf (cells h requests) head), h')
     \<and> cells h' order = fst (sstf (cells h requests) head)
     \<and> next_free h \<le> order
     \<and> (\<forall>a<next_free h. cells h' a = cells h a)"
proof -
  define h1 where "h1 = snd (alloc (cells h requests) h)"
  define reqs where "reqs = next_free h"
  define h2 where "h2 = snd (alloc [head] h1)"
  define order where "order = Suc (next_free h)"
  have a1: "alloc (cells h requests) h = (reqs, h1)"
    by (simp add: alloc_def h1_def reqs_def)
  have a2: "alloc [head] h1 = (order, h2)"
    by (simp add: alloc_def h1_def h2_def order_def)
  have c2: "cells h2 reqs = cells h requests" "cells h2 order = [head]"
    "\<And>a. a < next_free h \<Longrightarrow> cells h2 a = cells h a"
    by (simp_all add: alloc_def h1_def h2_def order_def reqs_def)
  have "reqs \<noteq> order" by (simp add: reqs_def order_def)
  from sstf_loop_h_returns [OF this, of head h2] obtain h3 where h3:
    "sstf_loop_h reqs order head h2 = Some h3"
    "cells h3 order = fst (snd (sstf_loop (cells h2 reqs, cells h2 order, head)))"
    "\<forall>a. a \<noteq> reqs \<and> a \<noteq> order \<longrightarrow> cells h3 a = cells h2 a"
    by blast
  have ord: "cells h3 order = fst (sstf (cells h requests) head)"
    by (simp add: h3(2) c2 sstf_def split: prod.split)
  have "sstf_h requests head h = Some (order, seek_total (cells h3 order), h3)"
    by (simp add: sstf_h_def a1 a2 h3(1))
  moreover have "seek_total (cells h3 order) = snd (sstf (cells h requests) head)"
    by (simp add: ord sstf_total)
  moreover have "\<forall>a<next_free h. cells h3 a = cells h a"
    using h3(3) c2(3) by (simp add: reqs_def order_def)
  moreover have "next_free h \<le> order" by (simp add: order_def)
  ultimately show ?thesis using ord by auto
qed

lemma fcfs_h_returns:
  "\<exists>order h'. fcfs_h requests head h = (order, snd (fcfs (cells h requests) head), h')
     \<and> cells h' order = fst (fcfs (cells h requests) head)
     \<and> next_free h \<le> order
     \<and> (\<forall>a<next_free h. cells h' a = cells h a)"
  by (simp add: fcfs_h_def fcfs_def alloc_def Let_def)

lemma scan_h_returns:
  "\<exists>order h'. scan_h requests head disk_size direction h
       = (order, snd (scan (cells h requests) head disk_size direction), h')
     \<and> cells h' order = fst (scan (cells h requests) head disk_size direction)
     \<and> next_free h \<le> order
     \<and> (\<forall>a<next_free h. cells h' a = cells h a)"
  if "requests < next_free h"
  using that by (simp add: scan_h_def scan_def alloc_def store_def Let_def)

lemma c_scan_h_returns:
  "\<exists>order h'. c_scan_h requests head disk_size direction h
       = (order, snd (c_scan (cells h requests) head disk_size direction), h')
     \<and> cells h' order = fst (c_scan (cells h requests) head disk_size direction)
     \<and> next_free h \<le> order
     \<and> (\<forall>a<next_free h. cells h' a = cells h a)"
  if "requests < next_free h"
  using that by (simp add: c_scan_h_def c_scan_def alloc_def Let_def)

section \<open>The claims\<close>



text \<open>
  Claim C2. SCAN splits the requests into \<open>left\<close> (less than the head) and \<open>right\<close>
  (greater or equal), both sorted ascending. For direction \<^verbatim>\<open>"right"\<close> the order is the
  head, \<open>right\<close> ascending, \<open>disk_size - 1\<close>, \<open>left\<close> descending; for every other
  direction it is the head, \<open>left\<close> descending, \<open>0\<close>, \<open>right\<close> ascending. One boundary
  entry is added in every run, so the order has two entries more than the requests.
\<close>

theorem scan_order:
  "\<exists>left right.
     sorted left \<and> sorted right
     \<and> mset left = filter_mset (\<lambda>r. r < head) (mset requests)
     \<and> mset right = filter_mset (\<lambda>r. r \<ge> head) (mset requests)
     \<and> fst (scan requests head disk_size direction)
         = (if direction = ''right''
            then [head] @ right @ [disk_size - 1] @ rev left
            else [head] @ rev left @ [0] @ right)
     \<and> length (fst (scan requests head disk_size direction)) = length requests + 2
     \<and> snd (scan requests head disk_size direction)
         = seek_total (fst (scan requests head disk_size direction))"
  using partition_lengths [of head requests]
  by (intro exI [where x = "sort (filter (\<lambda>r. r < head) requests)"]
            exI [where x = "sort (filter (\<lambda>r. r \<ge> head) requests)"])
     (simp add: scan_def Let_def)

text \<open>
  Claim C3. C-SCAN uses the same split. For direction \<^verbatim>\<open>"right"\<close> the order is the head,
  \<open>right\<close> ascending, \<open>disk_size - 1\<close>, \<open>0\<close>, \<open>left\<close> ascending; for every other direction
  it is the head, \<open>left\<close> descending, \<open>0\<close>, \<open>disk_size - 1\<close>, \<open>right\<close> descending. Both
  boundary entries are added in every run, so the order has three entries more than the
  requests.
\<close>

theorem c_scan_order:
  "\<exists>left right.
     sorted left \<and> sorted right
     \<and> mset left = filter_mset (\<lambda>r. r < head) (mset requests)
     \<and> mset right = filter_mset (\<lambda>r. r \<ge> head) (mset requests)
     \<and> fst (c_scan requests head disk_size direction)
         = (if direction = ''right''
            then [head] @ right @ [disk_size - 1, 0] @ left
            else [head] @ rev left @ [0, disk_size - 1] @ rev right)
     \<and> length (fst (c_scan requests head disk_size direction)) = length requests + 3
     \<and> snd (c_scan requests head disk_size direction)
         = seek_total (fst (c_scan requests head disk_size direction))"
  using partition_lengths [of head requests]
  by (intro exI [where x = "sort (filter (\<lambda>r. r < head) requests)"]
            exI [where x = "sort (filter (\<lambda>r. r \<ge> head) requests)"])
     (simp add: c_scan_def Let_def)

text \<open>
  Claim C4 says that the average is the total divided by \<open>len(order) - 1\<close> and the
  throughput is \<open>len(order) - 1\<close> divided by the total. The handler divides by
  \<open>len(requests)\<close>. For SCAN on the single request 10 with the head at 5 the order is
  \<open>[5, 10, 199]\<close> and the total 194: the handler's average is \<open>194 / 1\<close>, which is 194,
  where \<open>194 / (len(order) - 1)\<close> is 97, and its throughput is the float of \<open>1 / 194\<close>,
  where \<open>(len(order) - 1) / 194\<close> is the float of \<open>2 / 194\<close>, twice as much. Nor is
  there always an average: for the request \<open>2 * 10 ^ 308\<close>, a text of 309 digits, and
  the head at 0, the division raises OverflowError.
\<close>

theorem average_divisor_counterexample:
  "run_simulation ascii_int ''10'' ''SCAN'' 5 200 ''right'' ''right''
     = Inr ([5, 10, 199], 194, 194, 5942894353643541 / 2 ^ 60)
   \<and> py_truediv 194 (int (length [5, 10, 199 :: int]) - 1) = Inr 97
   \<and> py_truediv (int (length [5, 10, 199 :: int]) - 1) 194 = Inr (5942894353643541 / 2 ^ 59)
   \<and> run_simulation ascii_int (CHR ''2'' # replicate 308 CHR ''0'') ''FCFS'' 0 200 ''right'' ''right''
     = Inl OverflowError"
proof -
  have "read_requests ascii_int ''10'' = Inr [10]"
    by (simp add: read_requests_def ascii_int_def is_space_def digit_of_def)
  moreover have "scan [10] 5 200 ''right'' = ([5, 10, 199], 194)"
    by (simp add: scan_def seek_total_def)
  ultimately have small: "run_simulation ascii_int ''10'' ''SCAN'' 5 200 ''right'' ''right''
     = Inr ([5, 10, 199], 194, 194, 5942894353643541 / 2 ^ 60)"
    by (simp add: run_simulation_def run_selected_def display_results_def py_truediv_pos
        float_samples)
  have claimed: "py_truediv 194 (int (length [5, 10, 199 :: int]) - 1) = Inr 97"
    "py_truediv (int (length [5, 10, 199 :: int]) - 1) 194 = Inr (5942894353643541 / 2 ^ 59)"
    by (simp_all add: py_truediv_pos float_samples)
  have "fcfs [2 * 10 ^ 308] 0 = ([0, 2 * 10 ^ 308], 2 * 10 ^ 308)"
    by (simp add: fcfs_def seek_total_def)
  then have "run_selected ''FCFS'' [2 * 10 ^ 308] 0 200 ''right'' ''right''
      = Inr ([0, 2 * 10 ^ 308], 2 * 10 ^ 308)"
    by (simp add: run_selected_def dict_get_def algorithms_def)
  moreover have "display_results [2 * 10 ^ 308] (2 * 10 ^ 308) = Inl OverflowError"
    unfolding display_results_def by (simp add: big_div [simplified])
  ultimately have large:
    "run_simulation ascii_int (CHR ''2'' # replicate 308 CHR ''0'') ''FCFS'' 0 200 ''right'' ''right''
       = Inl OverflowError"
    unfolding run_simulation_def big_read by simp
  from small claimed large show ?thesis by (intro conjI)
qed

text \<open>
  Claim C4, amended. When the request text reads as \<open>requests\<close> and \<open>algo\<close> is one of the
  four names, Run Simulation takes the order and the total of the selected policy. The
  total is the sum of \<open>|order[i] - order[i-1]|\<close> over consecutive entries, it is never
  negative, and it is 0 for an order of one entry. For a total of 0 the average and the
  throughput are 0. Otherwise the average is the float nearest to
  \<open>total / len(requests)\<close> and the throughput the float nearest to
  \<open>len(requests) / total\<close>, each within \<open>max (q / 2 ^ 53) (1 / 2 ^ 1075)\<close> of its exact
  quotient \<open>q\<close>; when one of the two floats would be \<open>2 ^ 1024\<close> or more, the handler
  raises OverflowError instead. \<open>len(requests)\<close> is \<open>len(order) - 1\<close> for FCFS and SSTF,
  \<open>len(order) - 2\<close> for SCAN and \<open>len(order) - 3\<close> for C-SCAN.
\<close>

theorem run_simulation_metrics:
  fixes requests :: "int list"
  defines "n \<equiv> int (length requests)"
  assumes parsed: "read_requests py_int req_str = Inr requests"
    and algo: "algo \<in> set [''FCFS'', ''SSTF'', ''SCAN'', ''C-SCAN'']"
    and policy: "(if algo = ''FCFS'' then fcfs requests head
      else if algo = ''SSTF'' then sstf requests head
      else if algo = ''SCAN'' then scan requests head disk_size scan_direction
      else c_scan requests head disk_size cscan_direction) = (order, total_seek)"
  shows "run_simulation py_int req_str algo head disk_size scan_direction cscan_direction
      = (if total_seek = 0 then Inr (order, total_seek, 0, 0)
         else if nearest_float total_seek n < 2 ^ 1024 \<and> nearest_float n total_seek < 2 ^ 1024
         then Inr (order, total_seek, nearest_float total_seek n, nearest_float n total_seek)
         else Inl OverflowError)
    \<and> (total_seek \<noteq> 0 \<longrightarrow>
          \<bar>nearest_float total_seek n - of_int total_seek / of_int n\<bar>
            \<le> max (of_int total_seek / of_int n / 2 ^ 53) (1 / 2 ^ 1075)
        \<and> \<bar>nearest_float n total_seek - of_int n / of_int total_seek\<bar>
            \<le> max (of_int n / of_int total_seek / 2 ^ 53) (1 / 2 ^ 1075))
    \<and> total_seek = (\<Sum>i = 1..<length order. \<bar>order ! i - order ! (i - 1)\<bar>)
    \<and> 0 \<le> total_seek
    \<and> seek_total [head] = 0
    \<and> length requests
        = length order - (if algo = ''SCAN'' then 2 else if algo = ''C-SCAN'' then 3 else 1)"
proof -
  from parsed have ne: "requests \<noteq> []" by (rule read_requests_nonempty)
  then have n: "0 < n" by (simp add: n_def)
  from algo consider "algo = ''FCFS''" | "algo = ''SSTF''" | "algo = ''SCAN''" | "algo = ''C-SCAN''"
    by auto
  note names = this
  from names have sel: "run_selected algo requests head disk_size scan_direction cscan_direction
       = Inr (order, total_seek)"
    using policy by cases (simp_all add: run_selected_def dict_get_def algorithms_def)
  have "total_seek = seek_total order
      \<and> length order
          = length requests + (if algo = ''SCAN'' then 2 else if algo = ''C-SCAN'' then 3 else 1)"
    using names
  proof cases
    case 1
    with policy have p: "fcfs requests head = (order, total_seek)" by simp
    from policy_totals(1) [of requests head] policy_lengths(1) [of requests head]
    show ?thesis unfolding p using 1 by simp
  next
    case 2
    with policy have p: "sstf requests head = (order, total_seek)" by simp
    from sstf_total [of requests head] sstf_length [of requests head]
    show ?thesis unfolding p using 2 by simp
  next
    case 3
    with policy have p: "scan requests head disk_size scan_direction = (order, total_seek)" by simp
    from policy_totals(2) [of requests head disk_size scan_direction]
      policy_lengths(2) [of requests head disk_size scan_direction]
    show ?thesis unfolding p using 3 by simp
  next
    case 4
    with policy have p: "c_scan requests head disk_size cscan_direction = (order, total_seek)" by simp
    from policy_totals(3) [of requests head disk_size cscan_direction]
      policy_lengths(3) [of requests head disk_size cscan_direction]
    show ?thesis unfolding p using 4 by simp
  qed
  then have tot: "total_seek = seek_total order"
    and len: "length requests
        = length order - (if algo = ''SCAN'' then 2 else if algo = ''C-SCAN'' then 3 else 1)"
    by simp_all
  from tot have nonneg: "0 \<le> total_seek" by (simp add: seek_total_nonneg)
  have run: "run_simulation py_int req_str algo head disk_size scan_direction cscan_direction
      = (if total_seek = 0 then Inr (order, total_seek, 0, 0)
         else if nearest_float total_seek n < 2 ^ 1024 \<and> nearest_float n total_seek < 2 ^ 1024
         then Inr (order, total_seek, nearest_float total_seek n, nearest_float n total_seek)
         else Inl OverflowError)"
    by (simp add: run_simulation_def parsed sel display_results_nonempty [OF ne nonneg] n_def)
  have near: "total_seek \<noteq> 0 \<longrightarrow>
          \<bar>nearest_float total_seek n - of_int total_seek / of_int n\<bar>
            \<le> max (of_int total_seek / of_int n / 2 ^ 53) (1 / 2 ^ 1075)
        \<and> \<bar>nearest_float n total_seek - of_int n / of_int total_seek\<bar>
            \<le> max (of_int n / of_int total_seek / 2 ^ 53) (1 / 2 ^ 1075)"
  proof
    assume "total_seek \<noteq> 0"
    with nonneg have "0 < total_seek" by simp
    with n show "\<bar>nearest_float total_seek n - of_int total_seek / of_int n\<bar>
            \<le> max (of_int total_seek / of_int n / 2 ^ 53) (1 / 2 ^ 1075)
        \<and> \<bar>nearest_float n total_seek - of_int n / of_int total_seek\<bar>
            \<le> max (of_int n / of_int total_seek / 2 ^ 53) (1 / 2 ^ 1075)"
      by (intro conjI nearest_float_error)
  qed
  have single: "seek_total [head] = 0" by (simp add: seek_total_def)
  have sum: "total_seek = (\<Sum>i = 1..<length order. \<bar>order ! i - order ! (i - 1)\<bar>)"
    unfolding tot by (rule seek_total_sum)
  from run near sum nonneg single len show ?thesis by (intro conjI)
qed

theorem run_simulation_metrics_witness:
  "read_requests ascii_int ''82, 170, 43'' = Inr [82, 170, 43]
   \<and> scan [82, 170, 43] 50 200 ''right'' = ([50, 82, 170, 199, 43], 305)
   \<and> run_simulation ascii_int ''82, 170, 43'' ''SCAN'' 50 200 ''right'' ''left''
       = Inr ([50, 82, 170, 199, 43], 305, 7154155658062507 / 2 ^ 46, 5670105760361543 / 2 ^ 59)
   \<and> length [82, 170, 43 :: int] = length [50, 82, 170, 199, 43 :: int] - 2"
proof -
  have algo: "''SCAN'' \<in> set [''FCFS'', ''SSTF'', ''SCAN'', ''C-SCAN'']"
    by simp
  have scan: "scan [82, 170, 43] 50 200 ''right'' = ([50, 82, 170, 199, 43], 305)"
    by (simp add: scan_def seek_total_def)
  then have policy: "(if ''SCAN'' = ''FCFS'' then fcfs [82, 170, 43] 50
      else if ''SCAN'' = ''SSTF'' then sstf [82, 170, 43] 50
      else if ''SCAN'' = ''SCAN'' then scan [82, 170, 43] 50 200 ''right''
      else c_scan [82, 170, 43] 50 200 ''left'') = ([50, 82, 170, 199, 43], 305)"
    by simp
  from run_simulation_metrics [OF sample_read algo policy] sample_read scan show ?thesis
    by (simp add: float_samples)
qed

text \<open>
  Claim C5. FCFS returns the head followed by the requests in their input order, so the
  order without its first entry is the request list; its total is the sum of the
  absolute differences of consecutive entries; for the requests
  \<open>[82, 170, 43, 140, 24, 16, 190]\<close> and the head at 50 the total is 642.
\<close>

theorem fcfs_keeps_input_order:
  "fst (fcfs requests head) = head # requests
   \<and> tl (fst (fcfs requests head)) = requests
   \<and> snd (fcfs requests head)
       = (\<Sum>i = 1..<length (head # requests). \<bar>(head # requests) ! i - (head # requests) ! (i - 1)\<bar>)
   \<and> snd (fcfs [82, 170, 43, 140, 24, 16, 190] 50) = 642"
proof -
  have run: "fcfs rs h = (h # rs, seek_total (h # rs))" for rs h
    by (simp add: fcfs_def Let_def)
  have total: "seek_total (head # requests)
       = (\<Sum>i = 1..<length (head # requests). \<bar>(head # requests) ! i - (head # requests) ! (i - 1)\<bar>)"
    by (rule seek_total_sum)
  have example: "seek_total [50, 82, 170, 43, 140, 24, 16, 190] = 642"
    by (simp add: seek_total_def)
  from total example show ?thesis
    unfolding run fst_conv snd_conv list.sel by (intro conjI refl)
qed

text \<open>
  Claim C6. For every request list, also one with an empty \<open>left\<close> or \<open>right\<close> part, the
  order of every policy starts with the head; its length is \<open>1 + len(requests)\<close> for FCFS
  and SSTF, one more for SCAN and two more for C-SCAN, whatever the requests, the disk
  size and the direction are.
\<close>

theorem order_head_and_length:
  "fst (fcfs requests head) ! 0 = head
   \<and> length (fst (fcfs requests head)) = 1 + length requests
   \<and> fst (sstf requests head) ! 0 = head
   \<and> length (fst (sstf requests head)) = 1 + length requests
   \<and> fst (scan requests head disk_size direction) ! 0 = head
   \<and> length (fst (scan requests head disk_size direction)) = 1 + length requests + 1
   \<and> fst (c_scan requests head disk_size direction) ! 0 = head
   \<and> length (fst (c_scan requests head disk_size direction)) = 1 + length requests + 2"
  using partition_lengths [of head requests]
  by (simp add: fcfs_def sstf_head sstf_length scan_def c_scan_def Let_def)

text \<open>
  Claim C7 says that the empty request list is answered with an EmptyRequestSet error
  whatever the policy. No policy raises: on the empty list with the head at 50 they
  return the orders \<open>[50]\<close>, \<open>[50]\<close>, \<open>[50, 199]\<close> and \<open>[50, 199, 0]\<close>, and the call of the
  selected policy in Run Simulation returns as well. Only the division of lines 153 and
  154 fails on an empty list, with ZeroDivisionError.
\<close>

theorem empty_requests_counterexample:
  "fcfs [] 50 = ([50], 0)
   \<and> sstf [] 50 = ([50], 0)
   \<and> scan [] 50 200 ''right'' = ([50, 199], 149)
   \<and> c_scan [] 50 200 ''right'' = ([50, 199, 0], 348)
   \<and> run_selected ''FCFS'' [] 50 200 ''right'' ''right'' = Inr ([50], 0)
   \<and> display_results [] 0 = Inl ZeroDivisionError"
  by (simp add: fcfs_def sstf_def sstf_loop.simps scan_def c_scan_def seek_total_def
      run_selected_def dict_get_def algorithms_def display_results_def py_truediv_def)

text \<open>
  Claim C7, amended. On the empty request list no policy raises: FCFS and SSTF return the
  order \<open>[head]\<close> with total 0, SCAN returns \<open>[head, disk_size - 1]\<close> for direction
  \<^verbatim>\<open>"right"\<close> and \<open>[head, 0]\<close> otherwise, C-SCAN returns \<open>[head, disk_size - 1, 0]\<close> or
  \<open>[head, 0, disk_size - 1]\<close>, each with its total. The computation of the average on an
  empty list raises ZeroDivisionError. The handlers never hold an empty list: reading
  the request text never yields one, and the empty text is one empty piece, for which
  \<^verbatim>\<open>int\<close> decides.
\<close>

theorem empty_requests_behaviour:
  "fcfs [] head = ([head], 0)
   \<and> sstf [] head = ([head], 0)
   \<and> scan [] head disk_size direction
       = (if direction = ''right'' then ([head, disk_size - 1], \<bar>disk_size - 1 - head\<bar>)
          else ([head, 0], \<bar>head\<bar>))
   \<and> c_scan [] head disk_size direction
       = (if direction = ''right''
          then ([head, disk_size - 1, 0], \<bar>disk_size - 1 - head\<bar> + \<bar>disk_size - 1\<bar>)
          else ([head, 0, disk_size - 1], \<bar>head\<bar> + \<bar>disk_size - 1\<bar>))
   \<and> display_results [] total_seek = Inl ZeroDivisionError
   \<and> read_requests py_int req_str \<noteq> Inr []
   \<and> read_requests py_int [] = (case py_int [] of None \<Rightarrow> Inl ValueError | Some n \<Rightarrow> Inr [n])"
proof -
  have "sstf [] head = ([head], 0)"
    by (simp add: sstf_def sstf_loop.simps seek_total_def)
  moreover have "fcfs [] head = ([head], 0)"
    by (simp add: fcfs_def seek_total_def)
  moreover have "scan [] head disk_size direction
       = (if direction = ''right'' then ([head, disk_size - 1], \<bar>disk_size - 1 - head\<bar>)
          else ([head, 0], \<bar>head\<bar>))"
    by (simp add: scan_def seek_total_def)
  moreover have "c_scan [] head disk_size direction
       = (if direction = ''right''
          then ([head, disk_size - 1, 0], \<bar>disk_size - 1 - head\<bar> + \<bar>disk_size - 1\<bar>)
          else ([head, 0, disk_size - 1], \<bar>head\<bar> + \<bar>disk_size - 1\<bar>))"
    by (auto simp: c_scan_def seek_total_def)
  moreover have "read_requests py_int [] = (case py_int [] of None \<Rightarrow> Inl ValueError | Some n \<Rightarrow> Inr [n])"
    by (simp add: read_requests_def split: option.split)
  ultimately show ?thesis
    using display_results_empty read_requests_never_empty by blast
qed

text \<open>
  Claim C8 says that Compare All Algorithms produces one result per policy for every
  request list. For the request \<open>2 * 10 ^ 308\<close>, a text of 309 digits that the handler
  reads, and the head at 0, the total of FCFS is \<open>2 * 10 ^ 308\<close>, its average is too
  large for a float, and the handler raises OverflowError while it builds the table.
\<close>

theorem compare_all_overflow_counterexample:
  "read_requests ascii_int (CHR ''2'' # replicate 308 CHR ''0'') = Inr [2 * 10 ^ 308]
   \<and> compare_all ascii_int (CHR ''2'' # replicate 308 CHR ''0'') 0 200 = Inl OverflowError"
proof -
  have "snd (fcfs [2 * 10 ^ 308] 0) = 2 * 10 ^ 308"
    by (simp add: fcfs_def seek_total_def)
  then have "py_truediv (snd (fcfs [2 * 10 ^ 308] 0)) (int (length [2 * 10 ^ 308 :: int]))
      = Inl OverflowError"
    by (simp add: big_div [simplified])
  then have "compare_all ascii_int (CHR ''2'' # replicate 308 CHR ''0'') 0 200 = Inl OverflowError"
    unfolding compare_all_def big_read compare_loop sum.case prod.case table_column
    by (simp del: One_nat_def)
  with big_read show ?thesis by (intro conjI)
qed

text \<open>
  Claim C8, amended. For every request list that Compare All Algorithms reads from the
  request text, and every head and disk size, it runs the four policies on that list,
  SCAN and C-SCAN with the direction \<^verbatim>\<open>"right"\<close>. When for every total that is not 0 the
  float nearest to \<open>total / len(request_list)\<close> and the float nearest to
  \<open>len(request_list) / total\<close> are below \<open>2 ^ 1024\<close>, it returns one order, total, average
  and throughput per policy under the names FCFS, SSTF, SCAN, C-SCAN in this order, the
  average and the throughput being these floats (0 for a total of 0). Otherwise it
  raises OverflowError.
\<close>

theorem compare_all_results:
  fixes request_list :: "int list" and head disk_size :: int
  defines "n \<equiv> int (length request_list)"
    and "totals \<equiv> [snd (fcfs request_list head),
                   snd (sstf request_list head),
                   snd (scan request_list head disk_size ''right''),
                   snd (c_scan request_list head disk_size ''right'')]"
  assumes parsed: "read_requests py_int req_str = Inr request_list"
  shows "compare_all py_int req_str head disk_size
    = (if list_all (\<lambda>t. t = 0 \<or> nearest_float t n < 2 ^ 1024 \<and> nearest_float n t < 2 ^ 1024) totals
       then Inr (\<lparr>algorithm = [''FCFS'', ''SSTF'', ''SCAN'', ''C-SCAN''],
                  total_seek_time = totals,
                  avg_seek_time = map (\<lambda>t. if t = 0 then 0 else nearest_float t n) totals,
                  throughput = map (\<lambda>t. if t = 0 then 0 else nearest_float n t) totals\<rparr>,
                 [(''FCFS'', fst (fcfs request_list head)),
                  (''SSTF'', fst (sstf request_list head)),
                  (''SCAN'', fst (scan request_list head disk_size ''right'')),
                  (''C-SCAN'', fst (c_scan request_list head disk_size ''right''))])
       else Inl OverflowError)"
proof -
  from parsed have "request_list \<noteq> []" by (rule read_requests_nonempty)
  then have n: "0 < n" by (simp add: n_def)
  have nonneg: "\<forall>t\<in>set totals. 0 \<le> t"
    by (simp add: totals_def policy_totals_nonneg)
  have both: "list_all (\<lambda>t. t = 0 \<or> nearest_float t n < 2 ^ 1024 \<and> nearest_float n t < 2 ^ 1024) totals
      \<longleftrightarrow> list_all (\<lambda>t. t = 0 \<or> nearest_float t n < 2 ^ 1024) totals
         \<and> list_all (\<lambda>t. t = 0 \<or> nearest_float n t < 2 ^ 1024) totals"
    by (auto simp: list_all_iff)
  have "compare_all py_int req_str head disk_size
    = (case traverse (\<lambda>t. py_truediv t n) totals of
         Inl e \<Rightarrow> Inl e
       | Inr avgs \<Rightarrow>
           (case traverse (\<lambda>t. if t \<noteq> 0 then py_truediv n t else Inr 0) totals of
              Inl e \<Rightarrow> Inl e
            | Inr thrs \<Rightarrow>
                Inr (\<lparr>algorithm = [''FCFS'', ''SSTF'', ''SCAN'', ''C-SCAN''],
                      total_seek_time = totals,
                      avg_seek_time = avgs,
                      throughput = thrs\<rparr>,
                     [(''FCFS'', fst (fcfs request_list head)),
                      (''SSTF'', fst (sstf request_list head)),
                      (''SCAN'', fst (scan request_list head disk_size ''right'')),
                      (''C-SCAN'', fst (c_scan request_list head disk_size ''right''))])))"
    unfolding compare_all_def parsed compare_loop sum.case prod.case table_column
    unfolding list.map fst_conv snd_conv n_def [symmetric] totals_def [symmetric]
    by (rule refl)
  then show ?thesis
    unfolding avg_column [OF n nonneg] throughput_column [OF n nonneg] both by simp
qed

theorem compare_all_results_witness:
  "read_requests ascii_int ''82, 170, 43'' = Inr [82, 170, 43]
   \<and> compare_all ascii_int ''82, 170, 43'' 50 200
    = Inr (\<lparr>algorithm = [''FCFS'', ''SSTF'', ''SCAN'', ''C-SCAN''],
           total_seek_time = [247, 134, 305, 391],
           avg_seek_time =
             [5793693270627669 / 2 ^ 46, 6286274479871317 / 2 ^ 47,
              7154155658062507 / 2 ^ 46, 4585696495577771 / 2 ^ 45],
           throughput =
             [3500773799413503 / 2 ^ 58, 6452918869068173 / 2 ^ 58,
              5670105760361543 / 2 ^ 59, 1105743131016797 / 2 ^ 57]\<rparr>,
          [(''FCFS'', [50, 82, 170, 43]),
           (''SSTF'', [50, 43, 82, 170]),
           (''SCAN'', [50, 82, 170, 199, 43]),
           (''C-SCAN'', [50, 82, 170, 199, 0, 43])])"
proof -
  have "fcfs [82, 170, 43] 50 = ([50, 82, 170, 43], 247)"
    by (simp add: fcfs_def seek_total_def)
  moreover have "sstf [82, 170, 43] 50 = ([50, 43, 82, 170], 134)"
    by code_simp
  moreover have "scan [82, 170, 43] 50 200 ''right'' = ([50, 82, 170, 199, 43], 305)"
    by (simp add: scan_def seek_total_def)
  moreover have "c_scan [82, 170, 43] 50 200 ''right'' = ([50, 82, 170, 199, 0, 43], 391)"
    by (simp add: c_scan_def seek_total_def)
  ultimately show ?thesis
    using compare_all_results [OF sample_read, of 50 200] sample_read
    by (simp add: float_samples)
qed

text \<open>
  Claim C9. No policy changes the list its caller passed. On the store of lists, for a
  request list that exists in the store, every policy returns, the order it returns is
  a new list, it holds the order of the policy on values, and every list that existed
  before the call, the request list among them, has the value it had before. SSTF
  removes entries only from its own copy.
\<close>

theorem policies_leave_requests_unchanged:
  assumes allocated: "requests < next_free h"
  shows "(\<exists>order h'. fcfs_h requests head h = (order, snd (fcfs (cells h requests) head), h')
            \<and> cells h' order = fst (fcfs (cells h requests) head)
            \<and> order \<noteq> requests
            \<and> cells h' requests = cells h requests
            \<and> (\<forall>a<next_free h. cells h' a = cells h a))
     \<and> (\<exists>order h'. sstf_h requests head h = Some (order, snd (sstf (cells h requests) head), h')
            \<and> cells h' order = fst (sstf (cells h requests) head)
            \<and> order \<noteq> requests
            \<and> cells h' requests = cells h requests
            \<and> (\<forall>a<next_free h. cells h' a = cells h a))
     \<and> (\<exists>order h'. scan_h requests head disk_size direction h
              = (order, snd (scan (cells h requests) head disk_size direction), h')
            \<and> cells h' order = fst (scan (cells h requests) head disk_size direction)
            \<and> order \<noteq> requests
            \<and> cells h' requests = cells h requests
            \<and> (\<forall>a<next_free h. cells h' a = cells h a))
     \<and> (\<exists>order h'. c_scan_h requests head disk_size direction h
              = (order, snd (c_scan (cells h requests) head disk_size direction), h')
            \<and> cells h' order = fst (c_scan (cells h requests) head disk_size direction)
            \<and> order \<noteq> requests
            \<and> cells h' requests = cells h requests
            \<and> (\<forall>a<next_free h. cells h' a = cells h a))"
proof (intro conjI)
  from fcfs_h_returns [of requests head h] allocated
  show "\<exists>order h'. fcfs_h requests head h = (order, snd (fcfs (cells h requests) head), h')
            \<and> cells h' order = fst (fcfs (cells h requests) head)
            \<and> order \<noteq> requests
            \<and> cells h' requests = cells h requests
            \<and> (\<forall>a<next_free h. cells h' a = cells h a)"
    by (metis not_less)
next
  from sstf_h_returns [of requests head h] allocated
  show "\<exists>order h'. sstf_h requests head h = Some (order, snd (sstf (cells h requests) head), h')
            \<and> cells h' order = fst (sstf (cells h requests) head)
            \<and> order \<noteq> requests
            \<and> cells h' requests = cells h requests
            \<and> (\<forall>a<next_free h. cells h' a = cells h a)"
    by (metis not_less)
next
  from scan_h_returns [OF allocated, of head disk_size direction] allocated
  show "\<exists>order h'. scan_h requests head disk_size direction h
              = (order, snd (scan (cells h requests) head disk_size direction), h')
            \<and> cells h' order = fst (scan (cells h requests) head disk_size direction)
            \<and> order \<noteq> requests
            \<and> cells h' requests = cells h requests
            \<and> (\<forall>a<next_free h. cells h' a = cells h a)"
    by (metis not_less)
next
  from c_scan_h_returns [OF allocated, of head disk_size direction] allocated
  show "\<exists>order h'. c_scan_h requests head disk_size direction h
              = (order, snd (c_scan (cells h requests) head disk_size direction), h')
            \<and> cells h' order = fst (c_scan (cells h requests) head disk_size direction)
            \<and> order \<noteq> requests
            \<and> cells h' requests = cells h requests
            \<and> (\<forall>a<next_free h. cells h' a = cells h a)"
    by (metis not_less)
qed

theorem policies_leave_requests_unchanged_witness:
  "(0 :: nat) < next_free \<lparr>cells = (\<lambda>a. [])(0 := [82, 170, 43]), next_free = 1\<rparr>
   \<and> (\<exists>order h'. sstf_h 0 50 \<lparr>cells = (\<lambda>a. [])(0 := [82, 170, 43]), next_free = 1\<rparr>
                     = Some (order, 134, h')
          \<and> cells h' order = [50, 43, 82, 170]
          \<and> cells h' 0 = [82, 170, 43])"
proof -
  let ?h = "\<lparr>cells = (\<lambda>a. [])(0 := [82, 170, 43]), next_free = 1\<rparr>"
  have allocated: "(0 :: nat) < next_free ?h" by simp
  have run: "sstf [82, 170, 43] 50 = ([50, 43, 82, 170], 134)" by code_simp
  from policies_leave_requests_unchanged [OF allocated, of 50 200 "''right''"]
  have "\<exists>order h'. sstf_h 0 50 ?h = Some (order, snd (sstf (cells ?h 0) 50), h')
            \<and> cells h' order = fst (sstf (cells ?h 0) 50)
            \<and> order \<noteq> 0
            \<and> cells h' 0 = cells ?h 0
            \<and> (\<forall>a<next_free ?h. cells h' a = cells ?h a)"
    by blast
  then show ?thesis using allocated by (simp add: run) blast
qed

text \<open>
  Claim C10. The order of SSTF is the head followed by a permutation of the requests:
  without its first entry it has the same entries as the request list, each as often
  as there.
\<close>

theorem sstf_order_is_permutation:
  "fst (sstf requests head) = head # tl (fst (sstf requests head))
   \<and> mset (tl (fst (sstf requests head))) = mset requests"
proof -
  have "fst (sstf requests head) \<noteq> []"
    using sstf_length [of requests head] by auto
  then have "fst (sstf requests head) = head # tl (fst (sstf requests head))"
    using sstf_head [of requests head] by (cases "fst (sstf requests head)") simp_all
  then show ?thesis by (simp add: sstf_visits_all)
qed

end
